theory Spec2Isabelle
  imports Main "HOL-Library.AList"
begin

section \<open>Characters and the string methods of the source\<close>

text \<open>
  A transcript is a Python \<open>str\<close>. It is modelled as a \<open>string\<close> whose characters are the
  code points 0 to 255; the character tests and case mappings below are Python's on that
  range (\<open>str.isspace\<close>, the classes \<open>\s\<close> and \<open>\d\<close> of \<open>re\<close>, \<open>str.lower\<close>,
  \<open>str.upper\<close>).
\<close>

definition code :: "char \<Rightarrow> int" where
  "code c = of_char c"

definition is_space :: "char \<Rightarrow> bool" where
  "is_space c = (let n = code c in
     (9 \<le> n \<and> n \<le> 13) \<or> (28 \<le> n \<and> n \<le> 32) \<or> n = 133 \<or> n = 160)"

definition is_digit :: "char \<Rightarrow> bool" where
  "is_digit c = (let n = code c in 48 \<le> n \<and> n \<le> 57)"

definition is_upper :: "char \<Rightarrow> bool" where
  "is_upper c = (let n = code c in 65 \<le> n \<and> n \<le> 90)"

definition is_lower :: "char \<Rightarrow> bool" where
  "is_lower c = (let n = code c in 97 \<le> n \<and> n \<le> 122)"

definition is_alpha :: "char \<Rightarrow> bool" where
  "is_alpha c = (is_upper c \<or> is_lower c)"

definition is_hexid :: "char \<Rightarrow> bool" where
  "is_hexid c = (let n = code c in
     is_digit c \<or> (97 \<le> n \<and> n \<le> 102) \<or> (65 \<le> n \<and> n \<le> 70) \<or> c = CHR ''-'')"

definition is_alnumid :: "char \<Rightarrow> bool" where
  "is_alnumid c = (is_alpha c \<or> is_digit c \<or> c = CHR ''-'')"

definition is_sep :: "char \<Rightarrow> bool" where
  "is_sep c = (c = CHR ''-'' \<or> is_space c)"

definition not_newline :: "char \<Rightarrow> bool" where
  "not_newline c = (code c \<noteq> 10)"

definition lower_char :: "char \<Rightarrow> char" where
  "lower_char c = (let n = code c in
     if (65 \<le> n \<and> n \<le> 90) \<or> (192 \<le> n \<and> n \<le> 222 \<and> n \<noteq> 215)
     then char_of (n + 32) else c)"

definition upper_char :: "char \<Rightarrow> char" where
  "upper_char c = (let n = code c in
     if (97 \<le> n \<and> n \<le> 122) \<or> (224 \<le> n \<and> n \<le> 254 \<and> n \<noteq> 247)
     then char_of (n - 32) else c)"

definition lower :: "string \<Rightarrow> string" where
  "lower s = map lower_char s"

definition upper :: "string \<Rightarrow> string" where
  "upper s = map upper_char s"

definition capitalize :: "string \<Rightarrow> string" where
  "capitalize s = (case s of [] \<Rightarrow> [] | c # cs \<Rightarrow> upper_char c # lower cs)"

definition strip :: "string \<Rightarrow> string" where
  "strip s = rev (dropWhile is_space (rev (dropWhile is_space s)))"

definition replace_char :: "char \<Rightarrow> char \<Rightarrow> string \<Rightarrow> string" where
  "replace_char a b s = map (\<lambda>c. if c = a then b else c) s"

fun starts_with :: "string \<Rightarrow> string \<Rightarrow> bool" where
  "starts_with [] s = True"
| "starts_with (p # ps) [] = False"
| "starts_with (p # ps) (c # cs) = (p = c \<and> starts_with ps cs)"

text \<open>\<open>sub in s\<close> of Python: \<open>sub\<close> occurs in \<open>s\<close> as a contiguous run.\<close>

fun contains :: "string \<Rightarrow> string \<Rightarrow> bool" where
  "contains sub [] = (sub = [])"
| "contains sub (c # cs) = (starts_with sub (c # cs) \<or> contains sub cs)"

section \<open>Regular expressions with Python's backtracking order\<close>

text \<open>
  The patterns of the source use literals, character classes, greedy repetition of a
  single character class, optional parts, alternation, capture groups and the anchor
  \<open>$\<close>. \<open>Rep p lo hi\<close> is the greedy repetition of the class \<open>p\<close>, at least \<open>lo\<close> and (when
  \<open>hi\<close> is given) at most \<open>hi\<close> times; \<open>Opt r\<close> is \<open>(?:r)?\<close>.
\<close>

datatype rx =
    Cls "char \<Rightarrow> bool"
  | Eps
  | Eol
  | Seq rx rx
  | Alt rx rx
  | Rep "char \<Rightarrow> bool" nat "nat option"
  | Grp nat rx

definition Opt :: "rx \<Rightarrow> rx" where
  "Opt r = Alt r Eps"

text \<open>The groups captured so far, the latest first; \<open>map_of\<close> looks a group up.\<close>

type_synonym caps = "(nat \<times> string) list"

text \<open>The lengths a greedy repetition tries, longest first.\<close>

definition rep_lengths :: "(char \<Rightarrow> bool) \<Rightarrow> nat \<Rightarrow> nat option \<Rightarrow> string \<Rightarrow> nat list" where
  "rep_lengths p lo hi s =
     (let k = length (takeWhile p s);
          m = (case hi of None \<Rightarrow> k | Some h \<Rightarrow> min h k)
      in rev [lo ..< Suc m])"

text \<open>
  \<open>rmatch r s\<close> lists, in the order a backtracking matcher tries them, the ways \<open>r\<close>
  matches a prefix of \<open>s\<close>: the groups captured and the rest of the input.
\<close>

primrec rmatch :: "rx \<Rightarrow> string \<Rightarrow> (caps \<times> string) list" where
  "rmatch (Cls p) s = (case s of [] \<Rightarrow> [] | c # cs \<Rightarrow> if p c then [([], cs)] else [])"
| "rmatch Eps s = [([], s)]"
| "rmatch Eol s = (if s = [] \<or> s = [CHR 0x0A] then [([], s)] else [])"
| "rmatch (Seq a b) s =
     concat (map (\<lambda>(c1, s1). map (\<lambda>(c2, s2). (c2 @ c1, s2)) (rmatch b s1)) (rmatch a s))"
| "rmatch (Alt a b) s = rmatch a s @ rmatch b s"
| "rmatch (Rep p lo hi) s = map (\<lambda>n. ([], drop n s)) (rep_lengths p lo hi s)"
| "rmatch (Grp g r) s =
     map (\<lambda>(c, s'). ((g, take (length s - length s') s) # c, s')) (rmatch r s)"

text \<open>A match object: the whole match (group 0) and the numbered groups.\<close>

record rmatch_obj =
  whole :: string
  groups :: caps

text \<open>\<open>m.group(n)\<close>: \<open>None\<close> for a group that took no part in the match.\<close>

definition group :: "rmatch_obj \<Rightarrow> nat \<Rightarrow> string option" where
  "group m n = (if n = 0 then Some (whole m) else map_of (groups m) n)"

text \<open>\<open>re.match\<close>: the first way to match at the start of \<open>s\<close>.\<close>

definition match_at :: "rx \<Rightarrow> string \<Rightarrow> rmatch_obj option" where
  "match_at r s =
     (case rmatch r s of [] \<Rightarrow> None
      | (c, s') # _ \<Rightarrow> Some \<lparr>whole = take (length s - length s') s, groups = c\<rparr>)"

text \<open>\<open>re.search\<close>: the first way to match at the leftmost position that has one.\<close>

fun search :: "rx \<Rightarrow> string \<Rightarrow> rmatch_obj option" where
  "search r [] = match_at r []"
| "search r (x # t) =
     (case match_at r (x # t) of Some m \<Rightarrow> Some m | None \<Rightarrow> search r t)"

text \<open>Builders for the patterns.\<close>

definition lit :: "string \<Rightarrow> rx" where
  "lit w = foldr (\<lambda>c r. Seq (Cls (\<lambda>x. x = c)) r) w Eps"

definition lit_i :: "string \<Rightarrow> rx" where
  "lit_i w = foldr (\<lambda>c r. Seq (Cls (\<lambda>x. lower_char x = lower_char c)) r) w Eps"

definition seqs :: "rx list \<Rightarrow> rx" where
  "seqs rs = foldr Seq rs Eps"

fun alts :: "rx \<Rightarrow> rx list \<Rightarrow> rx" where
  "alts r [] = r"
| "alts r (x # xs) = Alt r (alts x xs)"

text \<open>\<open>len(m.groups())\<close>: the number of groups of the pattern.\<close>

primrec ngroups :: "rx \<Rightarrow> nat" where
  "ngroups (Cls p) = 0"
| "ngroups Eps = 0"
| "ngroups Eol = 0"
| "ngroups (Seq a b) = ngroups a + ngroups b"
| "ngroups (Alt a b) = ngroups a + ngroups b"
| "ngroups (Rep p lo hi) = 0"
| "ngroups (Grp g r) = Suc (ngroups r)"

section \<open>The patterns of nlu.py\<close>

definition sp1 :: rx where
  "sp1 = Rep is_space 1 None"

definition sp0 :: rx where
  "sp0 = Rep is_space 0 None"

definition digits :: "nat \<Rightarrow> rx" where
  "digits n = Rep is_digit n (Some n)"

definition digits12 :: rx where
  "digits12 = Rep is_digit 1 (Some 2)"

text \<open>\<open>(?:name\s+)?([A-Z][a-z]+\s+[A-Z][a-z]+)\<close>\<close>

definition name_rx :: rx where
  "name_rx = seqs [Opt (seqs [lit ''name'', sp1]),
     Grp 1 (seqs [Cls is_upper, Rep is_lower 1 None, sp1, Cls is_upper, Rep is_lower 1 None])]"

text \<open>\<open>(\+91[-\s]?)?\d{5}[-\s]?\d{5}\<close>\<close>

definition phone_rx :: rx where
  "phone_rx = seqs [Opt (Grp 1 (seqs [lit ''+91'', Rep is_sep 0 (Some 1)])),
     digits 5, Rep is_sep 0 (Some 1), digits 5]"

text \<open>\<open>(?:city\s+|from\s+)([A-Za-z]+)\<close>\<close>

definition city_rx :: rx where
  "city_rx = seqs [alts (seqs [lit ''city'', sp1]) [seqs [lit ''from'', sp1]],
     Grp 1 (Rep is_alpha 1 None)]"

text \<open>\<open>(?:via|source|referral|through)\s+([A-Za-z]+)\<close>, ignoring case\<close>

definition source_rx :: rx where
  "source_rx = seqs [alts (lit_i ''via'') [lit_i ''source'', lit_i ''referral'', lit_i ''through''],
     sp1, Grp 1 (Rep is_alpha 1 None)]"

text \<open>\<open>lead\s+([0-9a-fA-F-]{8,})\<close> and \<open>lead\s+([a-zA-Z0-9-]{3,})\<close>, ignoring case\<close>

definition lead_patterns :: "rx list" where
  "lead_patterns =
     [seqs [lit_i ''lead'', sp1, Grp 1 (Rep is_hexid 8 None)],
      seqs [lit_i ''lead'', sp1, Grp 1 (Rep is_alnumid 3 None)]]"

definition at_on :: rx where
  "at_on = alts (lit_i ''at'') [lit_i ''on'']"

definition am_pm :: rx where
  "am_pm = alts (lit_i ''AM'') [lit_i ''PM'']"

definition month_name :: rx where
  "month_name = alts (lit_i ''January'') [lit_i ''February'', lit_i ''March'', lit_i ''April'',
     lit_i ''May'', lit_i ''June'', lit_i ''July'', lit_i ''August'', lit_i ''September'',
     lit_i ''October'', lit_i ''November'', lit_i ''December'']"

definition day_word :: rx where
  "day_word = alts (lit_i ''tomorrow'') [lit_i ''today'', lit_i ''monday'', lit_i ''tuesday'',
     lit_i ''wednesday'', lit_i ''thursday'', lit_i ''friday'', lit_i ''saturday'',
     lit_i ''sunday'']"

text \<open>\<open>\d{1,2}(?::\d{2})?\s*(?:AM|PM)?\<close>\<close>

definition clock_time :: rx where
  "clock_time = seqs [digits12, Opt (seqs [lit '':'', digits 2]), sp0, Opt am_pm]"

text \<open>\<open>\d{4}-\d{2}-\d{2}T\d{2}:\d{2}:\d{2}\<close>\<close>

definition iso_datetime :: rx where
  "iso_datetime = seqs [digits 4, lit ''-'', digits 2, lit ''-'', digits 2, lit_i ''T'',
     digits 2, lit '':'', digits 2, lit '':'', digits 2]"

text \<open>\<open>\d{4}-\d{2}-\d{2}\s+\d{1,2}:\d{2}\<close>\<close>

definition date_hhmm :: rx where
  "date_hhmm = seqs [digits 4, lit ''-'', digits 2, lit ''-'', digits 2, sp1, digits12,
     lit '':'', digits 2]"

text \<open>\<open>(?:January|...|December)\s+\d{1,2}\s+\d{1,2}\s*(?:AM|PM)?\<close>\<close>

definition month_day_time :: rx where
  "month_day_time = seqs [month_name, sp1, digits12, sp1, digits12, sp0, Opt am_pm]"

text \<open>\<open>\d{1,2}:\d{2}(?:\s*(?:AM|PM))?\<close>\<close>

definition hhmm :: rx where
  "hhmm = seqs [digits12, lit '':'', digits 2, Opt (seqs [sp0, am_pm])]"

text \<open>The six time patterns, in the order of the source; all ignore case.\<close>

definition time_patterns :: "rx list" where
  "time_patterns =
     [seqs [at_on, sp1, Grp 1 iso_datetime],
      seqs [at_on, sp1, Grp 1 date_hhmm],
      seqs [at_on, sp1, Grp 1 month_day_time],
      seqs [Grp 1 day_word, sp1, Opt (seqs [lit_i ''at'', sp1]), Grp 2 clock_time],
      seqs [at_on, sp1, Grp 1 clock_time],
      seqs [Grp 1 hhmm]]"

text \<open>\<open>notes?\s+(.+)$\<close> and \<open>notes?:\s*(.+)$\<close>, ignoring case\<close>

definition opt_s :: rx where
  "opt_s = Rep (\<lambda>x. lower_char x = CHR ''s'') 0 (Some 1)"

definition notes_patterns :: "rx list" where
  "notes_patterns =
     [seqs [lit_i ''note'', opt_s, sp1, Grp 1 (Rep not_newline 1 None), Eol],
      seqs [lit_i ''note'', opt_s, lit '':'', sp0, Grp 1 (Rep not_newline 1 None), Eol]]"

text \<open>\<open>lead\s+([0-9a-fA-F-]+)\<close>, case-sensitive\<close>

definition update_lead_rx :: rx where
  "update_lead_rx = seqs [lit ''lead'', sp1, Grp 1 (Rep is_hexid 1 None)]"

text \<open>\<open>(NEW|IN PROGRESS|FOLLOW UP|WON|LOST)\<close>, ignoring case\<close>

definition status_rx :: rx where
  "status_rx = Grp 1 (alts (lit_i ''NEW'') [lit_i ''IN PROGRESS'', lit_i ''FOLLOW UP'',
     lit_i ''WON'', lit_i ''LOST''])"

text \<open>\<open>notes?:\s*(.+)\<close>, ignoring case\<close>

definition update_notes_rx :: rx where
  "update_notes_rx = seqs [lit_i ''note'', opt_s, lit '':'', sp0, Grp 1 (Rep not_newline 1 None)]"

section \<open>parse\_transcript\<close>

datatype error = AttributeError

datatype intent = LEAD_CREATE | VISIT_SCHEDULE | LEAD_UPDATE | UNKNOWN

text \<open>
  The \<open>entities\<close> dict, as the list of its items in insertion order: \<open>map_of\<close> looks a
  key up and \<open>AList.update\<close> is \<open>entities[key] = value\<close>.
\<close>

type_synonym entity_map = "(string \<times> string) list"

record parse_result =
  intent :: intent
  entities :: entity_map

definition KNOWN_SOURCES :: "string set" where
  "KNOWN_SOURCES = {''instagram'', ''facebook'', ''linkedin'', ''website'', ''google'', ''ads''}"

definition VALID_STATUSES :: "string set" where
  "VALID_STATUSES = {''NEW'', ''IN_PROGRESS'', ''FOLLOW_UP'', ''WON'', ''LOST''}"

fun then_do :: "error + 'a \<Rightarrow> ('a \<Rightarrow> error + 'b) \<Rightarrow> error + 'b" where
  "then_do (Inl e) f = Inl e"
| "then_do (Inr x) f = f x"

text \<open>Calling a string method on \<open>m.group(n)\<close> raises AttributeError when it is \<open>None\<close>.\<close>

definition group_str :: "rmatch_obj \<Rightarrow> nat \<Rightarrow> error + string" where
  "group_str m n = (case group m n of None \<Rightarrow> Inl AttributeError | Some g \<Rightarrow> Inr g)"

text \<open>How an f-string prints \<open>m.group(n)\<close>.\<close>

definition group_fmt :: "rmatch_obj \<Rightarrow> nat \<Rightarrow> string" where
  "group_fmt m n = (case group m n of None \<Rightarrow> ''None'' | Some g \<Rightarrow> g)"

text \<open>\<open>if m: entities[key] = m.group(1).strip()\<close>\<close>

definition store_stripped :: "entity_map \<Rightarrow> string \<Rightarrow> rmatch_obj option \<Rightarrow> error + entity_map" where
  "store_stripped ents key mo =
     (case mo of None \<Rightarrow> Inr ents
      | Some m \<Rightarrow> then_do (group_str m 1) (\<lambda>g. Inr (AList.update key (strip g) ents)))"

definition has_keys :: "string list \<Rightarrow> entity_map \<Rightarrow> bool" where
  "has_keys ks ents = list_all (\<lambda>k. map_of ents k \<noteq> None) ks"

definition lead_create_gate :: "string \<Rightarrow> bool" where
  "lead_create_gate lowered =
     (contains ''lead'' lowered \<and>
      list_ex (\<lambda>w. contains w lowered) [''add'', ''create'', ''register'', ''new''])"

definition visit_schedule_gate :: "string \<Rightarrow> bool" where
  "visit_schedule_gate lowered =
     list_ex (\<lambda>w. contains w lowered) [''visit'', ''appointment'', ''meeting'', ''schedule'']"

definition lead_update_gate :: "string \<Rightarrow> bool" where
  "lead_update_gate lowered =
     (contains ''update'' lowered \<or> contains ''mark'' lowered \<or> contains ''status'' lowered)"

text \<open>The optional source of LEAD\_CREATE (lines 75 to 79).\<close>

definition store_source :: "entity_map \<Rightarrow> string \<Rightarrow> error + entity_map" where
  "store_source ents text =
     (case search source_rx text of None \<Rightarrow> Inr ents
      | Some m \<Rightarrow> then_do (group_str m 1) (\<lambda>g.
          let candidate = capitalize g in
          if lower candidate \<in> KNOWN_SOURCES then Inr (AList.update ''source'' candidate ents)
          else Inr ents))"

text \<open>
  The body of the LEAD\_CREATE branch (lines 59 to 82): \<open>Some entities\<close> when the branch
  returns, \<open>None\<close> when control goes on to the next branch.
\<close>

definition lead_create :: "string \<Rightarrow> error + entity_map option" where
  "lead_create text =
     (let name_match = search name_rx text;
          phone_match = search phone_rx text;
          city_match = search city_rx text
      in then_do (store_stripped [] ''name'' name_match) (\<lambda>e1.
         let e2 = (case phone_match of None \<Rightarrow> e1
                   | Some m \<Rightarrow> (case group m 0 of None \<Rightarrow> e1
                       | Some g \<Rightarrow> AList.update ''phone'' (filter is_digit g) e1))
         in then_do (store_stripped e2 ''city'' city_match) (\<lambda>e3.
            then_do (store_source e3 text) (\<lambda>e4.
              Inr (if has_keys [''name'', ''phone'', ''city''] e4 then Some e4 else None)))))"

text \<open>The loop over \<open>lead_patterns\<close> (lines 96 to 103).\<close>

fun find_lead_id :: "rx list \<Rightarrow> string \<Rightarrow> error + string option" where
  "find_lead_id [] text = Inr None"
| "find_lead_id (p # ps) text =
     (case search p text of None \<Rightarrow> find_lead_id ps text
      | Some m \<Rightarrow> then_do (group_str m 1) (\<lambda>g.
          let lead_id = strip g in
          if lower lead_id \<notin> set [''at'', ''on'', ''for'', ''with'', ''and'', ''or'']
          then Inr (Some lead_id) else find_lead_id ps text))"

text \<open>The loop over \<open>time_patterns\<close> (lines 120 to 129).\<close>

fun find_time_text :: "rx list \<Rightarrow> string \<Rightarrow> error + string option" where
  "find_time_text [] text = Inr None"
| "find_time_text (p # ps) text =
     (case search p text of None \<Rightarrow> find_time_text ps text
      | Some m \<Rightarrow>
          if ngroups p > 1 then Inr (Some (group_fmt m 1 @ '' '' @ group_fmt m 2))
          else then_do (group_str m 1) (\<lambda>g. Inr (Some (strip g))))"

text \<open>The loop over \<open>notes_patterns\<close> (lines 142 to 146).\<close>

fun find_notes :: "rx list \<Rightarrow> string \<Rightarrow> error + string option" where
  "find_notes [] text = Inr None"
| "find_notes (p # ps) text =
     (case search p text of None \<Rightarrow> find_notes ps text
      | Some m \<Rightarrow> then_do (group_str m 1) (\<lambda>g. Inr (Some (strip g))))"

text \<open>Python's truth value of \<open>time_text\<close>: \<open>None\<close> and the empty string are false.\<close>

definition truthy :: "string option \<Rightarrow> bool" where
  "truthy t = (case t of None \<Rightarrow> False | Some s \<Rightarrow> s \<noteq> [])"

text \<open>
  \<open>dateparser.parse\<close> is an external library. It is a parameter \<open>dp\<close>: given the moment of
  the call and a phrase, it gives the \<open>isoformat()\<close> of the date it resolved, or \<open>None\<close>.
\<close>

type_synonym 'm date_parser = "'m \<Rightarrow> string \<Rightarrow> string option"

text \<open>Lines 131 to 134.\<close>

definition store_visit_time :: "'m date_parser \<Rightarrow> 'm \<Rightarrow> entity_map \<Rightarrow> string option \<Rightarrow> entity_map" where
  "store_visit_time dp now ents time_text =
     (case time_text of None \<Rightarrow> ents
      | Some tt \<Rightarrow> if tt = [] then ents
          else (case dp now tt of None \<Rightarrow> ents | Some stamp \<Rightarrow> AList.update ''visit_time'' stamp ents))"

text \<open>Lines 148 to 153.\<close>

definition visit_result :: "entity_map \<Rightarrow> string option \<Rightarrow> entity_map option" where
  "visit_result ents time_text =
     (if has_keys [''lead_id''] ents \<and> (map_of ents ''visit_time'' \<noteq> None \<or> truthy time_text)
      then (case time_text of
              Some tt \<Rightarrow> if map_of ents ''visit_time'' = None \<and> tt \<noteq> []
                         then Some (AList.update ''visit_time'' tt ents) else Some ents
            | None \<Rightarrow> Some ents)
      else None)"

text \<open>The body of the VISIT\_SCHEDULE branch (lines 88 to 153).\<close>

definition visit_schedule :: "'m date_parser \<Rightarrow> 'm \<Rightarrow> string \<Rightarrow> error + entity_map option" where
  "visit_schedule dp now text =
     then_do (find_lead_id lead_patterns text) (\<lambda>lead.
     let e1 = (case lead of None \<Rightarrow> [] | Some l \<Rightarrow> AList.update ''lead_id'' l [])
     in then_do (find_time_text time_patterns text) (\<lambda>time_text.
        let e2 = store_visit_time dp now e1 time_text
        in then_do (find_notes notes_patterns text) (\<lambda>notes.
           let e3 = (case notes of None \<Rightarrow> e2 | Some n \<Rightarrow> AList.update ''notes'' n e2)
           in Inr (visit_result e3 time_text))))"

text \<open>The status of LEAD\_UPDATE (lines 167 to 170).\<close>

definition store_status :: "entity_map \<Rightarrow> rmatch_obj option \<Rightarrow> error + entity_map" where
  "store_status ents mo =
     (case mo of None \<Rightarrow> Inr ents
      | Some m \<Rightarrow> then_do (group_str m 1) (\<lambda>g.
          let status = replace_char CHR '' '' CHR ''_'' (upper g) in
          if status \<in> VALID_STATUSES then Inr (AList.update ''status'' status ents) else Inr ents))"

text \<open>The body of the LEAD\_UPDATE branch (lines 159 to 177).\<close>

definition lead_update :: "string \<Rightarrow> error + entity_map option" where
  "lead_update text =
     (let lead_match = search update_lead_rx text;
          status_match = search status_rx text
      in then_do (store_stripped [] ''lead_id'' lead_match) (\<lambda>e1.
         then_do (store_status e1 status_match) (\<lambda>e2.
         then_do (store_stripped e2 ''notes'' (search update_notes_rx text)) (\<lambda>e3.
           Inr (if has_keys [''lead_id'', ''status''] e3 then Some e3 else None)))))"

definition parse_transcript :: "'m date_parser \<Rightarrow> 'm \<Rightarrow> string \<Rightarrow> error + parse_result" where
  "parse_transcript dp now transcript =
     (let text = strip transcript; lowered = lower text
      in then_do (if lead_create_gate lowered then lead_create text else Inr None) (\<lambda>r1.
         case r1 of Some e \<Rightarrow> Inr \<lparr>intent = LEAD_CREATE, entities = e\<rparr>
         | None \<Rightarrow>
         then_do (if visit_schedule_gate lowered then visit_schedule dp now text else Inr None) (\<lambda>r2.
         case r2 of Some e \<Rightarrow> Inr \<lparr>intent = VISIT_SCHEDULE, entities = e\<rparr>
         | None \<Rightarrow>
         then_do (if lead_update_gate lowered then lead_update text else Inr None) (\<lambda>r3.
         case r3 of Some e \<Rightarrow> Inr \<lparr>intent = LEAD_UPDATE, entities = e\<rparr>
         | None \<Rightarrow> Inr \<lparr>intent = UNKNOWN, entities = []\<rparr>))))"

section \<open>What the patterns mean\<close>

primrec lang :: "rx \<Rightarrow> string set" where
  "lang (Cls p) = {[c] | c. p c}"
| "lang Eps = {[]}"
| "lang Eol = {[]}"
| "lang (Seq a b) = {u @ v | u v. u \<in> lang a \<and> v \<in> lang b}"
| "lang (Alt a b) = lang a \<union> lang b"
| "lang (Rep p lo hi) = {w. (\<forall>c \<in> set w. p c) \<and> lo \<le> length w \<and> (case hi of None \<Rightarrow> True | Some h \<Rightarrow> length w \<le> h)}"
| "lang (Grp g r) = lang r"

primrec glang :: "nat \<Rightarrow> rx \<Rightarrow> string set" where
  "glang g (Cls p) = {}"
| "glang g Eps = {}"
| "glang g Eol = {}"
| "glang g (Seq a b) = glang g a \<union> glang g b"
| "glang g (Alt a b) = glang g a \<union> glang g b"
| "glang g (Rep p lo hi) = {}"
| "glang g (Grp n r) = (if n = g then lang r else glang g r)"

primrec always_set :: "rx \<Rightarrow> nat set" where
  "always_set (Cls p) = {}"
| "always_set Eps = {}"
| "always_set Eol = {}"
| "always_set (Seq a b) = always_set a \<union> always_set b"
| "always_set (Alt a b) = always_set a \<inter> always_set b"
| "always_set (Rep p lo hi) = {}"
| "always_set (Grp n r) = insert n (always_set r)"

definition create_complete :: "string \<Rightarrow> bool" where
  "create_complete text =
     (search name_rx text \<noteq> None \<and> search phone_rx text \<noteq> None \<and> search city_rx text \<noteq> None)"

definition source_value :: "string \<Rightarrow> string option" where
  "source_value text =
     (case search source_rx text of None \<Rightarrow> None
      | Some m \<Rightarrow> (case group m 1 of None \<Rightarrow> None
          | Some g \<Rightarrow> if lower (capitalize g) \<in> KNOWN_SOURCES then Some (capitalize g) else None))"

primrec has_char :: "(char \<Rightarrow> bool) \<Rightarrow> rx \<Rightarrow> bool" where
  "has_char q (Cls p) = (\<forall>c. p c \<longrightarrow> q c)"
| "has_char q Eps = False"
| "has_char q Eol = False"
| "has_char q (Seq a b) = (has_char q a \<or> has_char q b)"
| "has_char q (Alt a b) = (has_char q a \<and> has_char q b)"
| "has_char q (Rep p lo hi) = (0 < lo \<and> (\<forall>c. p c \<longrightarrow> q c))"
| "has_char q (Grp g r) = has_char q r"

definition found :: "error + string option \<Rightarrow> bool" where
  "found r = (case r of Inr (Some x) \<Rightarrow> True | _ \<Rightarrow> False)"

definition visit_complete :: "string \<Rightarrow> bool" where
  "visit_complete text =
     (found (find_lead_id lead_patterns text) \<and> found (find_time_text time_patterns text))"

definition status_value :: "string \<Rightarrow> string option" where
  "status_value text =
     (case search status_rx text of None \<Rightarrow> None
      | Some m \<Rightarrow> (case group m 1 of None \<Rightarrow> None
          | Some g \<Rightarrow> let status = replace_char CHR '' '' CHR ''_'' (upper g)
                      in if status \<in> VALID_STATUSES then Some status else None))"

definition update_complete :: "string \<Rightarrow> bool" where
  "update_complete text = (search update_lead_rx text \<noteq> None \<and> status_value text \<noteq> None)"

definition notes_value :: "string \<Rightarrow> string option" where
  "notes_value text = (case find_notes notes_patterns text of Inr n \<Rightarrow> n | Inl e \<Rightarrow> None)"

definition update_notes_value :: "string \<Rightarrow> string option" where
  "update_notes_value text =
     (case search update_notes_rx text of None \<Rightarrow> None
      | Some m \<Rightarrow> map_option strip (group m 1))"

definition expected_intent :: "string \<Rightarrow> intent" where
  "expected_intent text =
     (let lowered = lower text in
      if lead_create_gate lowered \<and> create_complete text then LEAD_CREATE
      else if visit_schedule_gate lowered \<and> visit_complete text then VISIT_SCHEDULE
      else if lead_update_gate lowered \<and> update_complete text then LEAD_UPDATE
      else UNKNOWN)"

text \<open>The required entities of each intent (the table of the data model).\<close>

definition required :: "intent \<Rightarrow> string list" where
  "required i = (case i of
       LEAD_CREATE \<Rightarrow> [''name'', ''phone'', ''city'']
     | VISIT_SCHEDULE \<Rightarrow> [''lead_id'', ''visit_time'']
     | LEAD_UPDATE \<Rightarrow> [''lead_id'', ''status'']
     | UNKNOWN \<Rightarrow> [])"

text \<open>
  A test double for the date parser, used in the examples. The moment of the call is the
  ISO date of the day. It knows one ISO timestamp, and the phrase \<open>today 3 pm\<close>, which it
  resolves against the day of the call, as \<open>dateparser.parse\<close> does; any other phrase is a
  parse failure.
\<close>

definition stub_dateparser :: "string date_parser" where
  "stub_dateparser today phrase =
     (if phrase = ''2025-10-03T10:00:00'' then Some phrase
      else if lower phrase = ''today 3 pm'' then Some (today @ ''T15:00:00'')
      else None)"

section \<open>The matcher is sound\<close>

lemma rep_lengths_sound:
  assumes "n \<in> set (rep_lengths p lo hi s)"
  shows "lo \<le> n \<and> n \<le> length (takeWhile p s) \<and> (case hi of None \<Rightarrow> True | Some h \<Rightarrow> n \<le> h)"
  using assms by (auto simp: rep_lengths_def Let_def split: option.splits)

lemma take_takeWhile_all:
  assumes "n \<le> length (takeWhile p s)" and "c \<in> set (take n s)"
  shows "p c"
proof -
  have "take n s = take n (takeWhile p s @ dropWhile p s)" by simp
  also have "\<dots> = take n (takeWhile p s)" using assms(1) by (simp del: takeWhile_dropWhile_id)
  finally show ?thesis using assms(2) by (metis in_set_takeD set_takeWhileD)
qed

lemma rmatch_sound:
  "(c, s') \<in> set (rmatch r s) \<Longrightarrow> \<exists>m. s = m @ s' \<and> m \<in> lang r"
proof (induction r arbitrary: c s s')
  case (Cls p)
  then show ?case by (auto split: list.splits if_splits)
next
  case (Seq a b)
  then obtain c1 s1 c2 where a: "(c1, s1) \<in> set (rmatch a s)" and b: "(c2, s') \<in> set (rmatch b s1)"
    by auto
  from Seq.IH(1)[OF a] Seq.IH(2)[OF b] show ?case by fastforce
next
  case (Alt a b)
  then show ?case by fastforce
next
  case (Rep p lo hi)
  then obtain n where n: "n \<in> set (rep_lengths p lo hi s)" and s': "s' = drop n s" by auto
  note b = rep_lengths_sound[OF n]
  have len: "n \<le> length s" using b by (meson le_trans length_takeWhile_le)
  have "take n s \<in> lang (Rep p lo hi)"
    using b len take_takeWhile_all[of n p s] by (auto split: option.splits)
  then show ?case using s' by (metis append_take_drop_id)
next
  case (Grp g r)
  then show ?case by auto
qed (auto split: if_splits)

lemma rmatch_suffix_take:
  assumes "(c, s') \<in> set (rmatch r s)"
  shows "take (length s - length s') s \<in> lang r \<and> s = take (length s - length s') s @ s'"
  using rmatch_sound[OF assms] by auto

lemma rmatch_group:
  "(c, s') \<in> set (rmatch r s) \<Longrightarrow> map_of c g = Some w \<Longrightarrow> w \<in> glang g r"
proof (induction r arbitrary: c s s' w)
  case (Seq a b)
  then obtain c1 s1 c2 where a: "(c1, s1) \<in> set (rmatch a s)" and b: "(c2, s') \<in> set (rmatch b s1)"
    and c: "c = c2 @ c1" by auto
  show ?case
  proof (cases "map_of c2 g")
    case None
    then have "map_of c1 g = Some w" using c Seq.prems(2) by (simp add: map_add_def)
    then show ?thesis using Seq.IH(1)[OF a] by simp
  next
    case (Some v)
    then have "v = w" using c Seq.prems(2) by (simp add: map_add_def)
    then show ?thesis using Seq.IH(2)[OF b] Some by simp
  qed
next
  case (Grp n r)
  then obtain c0 where r: "(c0, s') \<in> set (rmatch r s)"
    and c: "c = (n, take (length s - length s') s) # c0" by auto
  show ?case
  proof (cases "n = g")
    case True
    then show ?thesis using c Grp.prems(2) rmatch_suffix_take[OF r] by simp
  next
    case False
    then show ?thesis using c Grp.prems(2) Grp.IH[OF r] by simp
  qed
qed (auto split: list.splits if_splits)

lemma rmatch_always:
  "(c, s') \<in> set (rmatch r s) \<Longrightarrow> g \<in> always_set r \<Longrightarrow> map_of c g \<noteq> None"
proof (induction r arbitrary: c s s')
  case (Seq a b)
  then obtain c1 s1 c2 where a: "(c1, s1) \<in> set (rmatch a s)" and b: "(c2, s') \<in> set (rmatch b s1)"
    and c: "c = c2 @ c1" by auto
  show ?case using Seq.prems(2) Seq.IH(1)[OF a] Seq.IH(2)[OF b] c
    by (auto simp: map_add_def split: option.splits)
next
  case (Grp n r)
  then show ?case by auto
qed (auto split: list.splits if_splits)

lemma match_at_sound:
  assumes "match_at r s = Some m"
  shows "(\<exists>post. s = whole m @ post) \<and> whole m \<in> lang r \<and>
     (\<forall>g w. map_of (groups m) g = Some w \<longrightarrow> w \<in> glang g r) \<and>
     (\<forall>g \<in> always_set r. map_of (groups m) g \<noteq> None)"
proof -
  from assms obtain c s' rest where rm: "rmatch r s = (c, s') # rest"
    and m: "m = \<lparr>whole = take (length s - length s') s, groups = c\<rparr>"
    by (auto simp: match_at_def split: list.splits)
  have mem: "(c, s') \<in> set (rmatch r s)" using rm by simp
  show ?thesis using rmatch_suffix_take[OF mem] rmatch_group[OF mem] rmatch_always[OF mem] m
    by (metis rmatch_obj.select_convs(1) rmatch_obj.select_convs(2))
qed

lemma search_sound:
  "search r s = Some m \<Longrightarrow>
     (\<exists>pre post. s = pre @ whole m @ post) \<and> whole m \<in> lang r \<and>
     (\<forall>g w. map_of (groups m) g = Some w \<longrightarrow> w \<in> glang g r) \<and>
     (\<forall>g \<in> always_set r. map_of (groups m) g \<noteq> None)"
proof (induction s)
  case Nil
  then show ?case using match_at_sound[of r "[]" m] by (metis append_Nil search.simps(1))
next
  case (Cons x t)
  show ?case
  proof (cases "match_at r (x # t)")
    case None
    then have "search r t = Some m" using Cons.prems by simp
    from Cons.IH[OF this] show ?thesis by (metis append_Cons)
  next
    case (Some m')
    then have "m' = m" using Cons.prems by simp
    then show ?thesis using match_at_sound[of r "x # t" m] Some by (metis append_Nil)
  qed
qed

lemma search_group1:
  assumes "search r s = Some m" and "1 \<in> always_set r"
  shows "\<exists>g. group m 1 = Some g \<and> g \<in> glang 1 r"
  using search_sound[OF assms(1)] assms(2) by (auto simp: group_def)

lemma search_group_str:
  assumes "search r s = Some m" and "1 \<in> always_set r"
  shows "\<exists>g. group_str m 1 = Inr g \<and> group m 1 = Some g \<and> g \<in> glang 1 r"
  using search_group1[OF assms] by (auto simp: group_str_def)

lemmas pat_defs = Opt_def lit_def lit_i_def seqs_def sp1_def sp0_def digits_def digits12_def
  at_on_def am_pm_def month_name_def day_word_def clock_time_def opt_s_def
  iso_datetime_def date_hhmm_def month_day_time_def hhmm_def

lemma always_name: "1 \<in> always_set name_rx" by (simp add: name_rx_def pat_defs)

lemma always_city: "1 \<in> always_set city_rx" by (simp add: city_rx_def pat_defs)

lemma always_source: "1 \<in> always_set source_rx" by (simp add: source_rx_def pat_defs)

lemma always_lead_patterns: "\<forall>p \<in> set lead_patterns. 1 \<in> always_set p" by (simp add: lead_patterns_def pat_defs)

lemma always_time_patterns: "\<forall>p \<in> set time_patterns. 1 \<in> always_set p" by (simp add: time_patterns_def pat_defs)

lemma always_notes_patterns: "\<forall>p \<in> set notes_patterns. 1 \<in> always_set p" by (simp add: notes_patterns_def pat_defs)

lemma always_update_lead: "1 \<in> always_set update_lead_rx" by (simp add: update_lead_rx_def pat_defs)

lemma always_status: "1 \<in> always_set status_rx" by (simp add: status_rx_def pat_defs)

lemma always_update_notes: "1 \<in> always_set update_notes_rx" by (simp add: update_notes_rx_def pat_defs)

lemma store_stripped_cases:
  assumes "1 \<in> always_set r"
  shows "(search r text = None \<and> store_stripped ents key (search r text) = Inr ents) \<or>
         (\<exists>m g. search r text = Some m \<and> group m 1 = Some g \<and> g \<in> glang 1 r \<and>
                store_stripped ents key (search r text) = Inr (AList.update key (strip g) ents))"
proof (cases "search r text")
  case None
  then show ?thesis by (simp add: store_stripped_def)
next
  case (Some m)
  from search_group_str[OF Some assms] obtain g
    where "group_str m 1 = Inr g" "group m 1 = Some g" "g \<in> glang 1 r" by blast
  then show ?thesis using Some by (simp add: store_stripped_def)
qed

lemma store_source_eq:
  "store_source ents text =
     Inr (case source_value text of None \<Rightarrow> ents | Some v \<Rightarrow> AList.update ''source'' v ents)"
proof (cases "search source_rx text")
  case None
  then show ?thesis by (simp add: store_source_def source_value_def)
next
  case (Some m)
  from search_group_str[OF Some always_source] obtain g
    where "group_str m 1 = Inr g" "group m 1 = Some g" by blast
  then show ?thesis using Some by (simp add: store_source_def source_value_def Let_def)
qed

lemma map_of_upd: "map_of (AList.update k v al) k' = (if k' = k then Some v else map_of al k')"
  by (simp add: update_conv')

lemma lead_create_result:
  "\<exists>res. lead_create text = Inr res \<and> (res \<noteq> None \<longleftrightarrow> create_complete text) \<and>
     (\<forall>e. res = Some e \<longrightarrow>
        (\<exists>m g. search name_rx text = Some m \<and> group m 1 = Some g \<and> g \<in> glang 1 name_rx \<and>
               map_of e ''name'' = Some (strip g)) \<and>
        (\<exists>m. search phone_rx text = Some m \<and> whole m \<in> lang phone_rx \<and>
               map_of e ''phone'' = Some (filter is_digit (whole m))) \<and>
        (\<exists>m g. search city_rx text = Some m \<and> group m 1 = Some g \<and> g \<in> glang 1 city_rx \<and>
               map_of e ''city'' = Some (strip g)) \<and>
        map_of e ''source'' = source_value text)"
proof -
  let ?e0 = "[] :: entity_map"
  obtain e1 where e1: "store_stripped ?e0 ''name'' (search name_rx text) = Inr e1"
    and n: "(search name_rx text = None \<and> e1 = ?e0) \<or>
      (\<exists>m g. search name_rx text = Some m \<and> group m 1 = Some g \<and> g \<in> glang 1 name_rx \<and>
         e1 = AList.update ''name'' (strip g) ?e0)"
    using store_stripped_cases[OF always_name, of "text" "?e0" "''name''"] by auto
  define e2 where "e2 = (case search phone_rx text of None \<Rightarrow> e1
     | Some m \<Rightarrow> (case group m 0 of None \<Rightarrow> e1 | Some g \<Rightarrow> AList.update ''phone'' (filter is_digit g) e1))"
  have p: "(search phone_rx text = None \<and> e2 = e1) \<or>
      (\<exists>m. search phone_rx text = Some m \<and> whole m \<in> lang phone_rx \<and>
         e2 = AList.update ''phone'' (filter is_digit (whole m)) e1)"
    using search_sound[of phone_rx "text"] by (cases "search phone_rx text") (auto simp: e2_def group_def)
  obtain e3 where e3: "store_stripped e2 ''city'' (search city_rx text) = Inr e3"
    and c: "(search city_rx text = None \<and> e3 = e2) \<or>
      (\<exists>m g. search city_rx text = Some m \<and> group m 1 = Some g \<and> g \<in> glang 1 city_rx \<and>
         e3 = AList.update ''city'' (strip g) e2)"
    using store_stripped_cases[OF always_city, of "text" e2 "''city''"] by auto
  define e4 where "e4 = (case source_value text of None \<Rightarrow> e3 | Some v \<Rightarrow> AList.update ''source'' v e3)"
  have lc: "lead_create text = Inr (if has_keys [''name'', ''phone'', ''city''] e4 then Some e4 else None)"
    using e1 e3 by (simp add: lead_create_def Let_def e2_def[symmetric] store_source_eq e4_def)
  have k1: "map_of e4 ''name'' = map_of e1 ''name''"
    using p c by (auto simp: e4_def map_of_upd split: option.splits)
  have k2: "map_of e4 ''phone'' = map_of e2 ''phone''"
    using c by (auto simp: e4_def map_of_upd split: option.splits)
  have k3: "map_of e4 ''city'' = map_of e3 ''city''"
    by (auto simp: e4_def map_of_upd split: option.splits)
  have k4: "map_of e4 ''source'' = source_value text"
    using n p c by (auto simp: e4_def map_of_upd split: option.splits)
  have hk: "has_keys [''name'', ''phone'', ''city''] e4 \<longleftrightarrow> create_complete text"
    unfolding has_keys_def create_complete_def using n p c k1 k2 k3
    by (auto simp: map_of_upd)
  show ?thesis
  proof (cases "create_complete text")
    case False
    then show ?thesis using lc hk by simp
  next
    case True
    then have res: "lead_create text = Inr (Some e4)" using lc hk by simp
    have "\<exists>m g. search name_rx text = Some m \<and> group m 1 = Some g \<and> g \<in> glang 1 name_rx \<and>
               map_of e4 ''name'' = Some (strip g)"
      using True n k1 by (auto simp: create_complete_def map_of_upd)
    moreover have "\<exists>m. search phone_rx text = Some m \<and> whole m \<in> lang phone_rx \<and>
               map_of e4 ''phone'' = Some (filter is_digit (whole m))"
      using True p k2 by (auto simp: create_complete_def map_of_upd)
    moreover have "\<exists>m g. search city_rx text = Some m \<and> group m 1 = Some g \<and> g \<in> glang 1 city_rx \<and>
               map_of e4 ''city'' = Some (strip g)"
      using True c k3 by (auto simp: create_complete_def map_of_upd)
    ultimately show ?thesis using res k4 True by simp
  qed
qed

lemma has_char_lang:
  "has_char q r \<Longrightarrow> w \<in> lang r \<Longrightarrow> \<exists>x \<in> set w. q x"
proof (induction r arbitrary: w)
  case (Rep p lo hi)
  then have "w \<noteq> []" by auto
  then obtain x where "x \<in> set w" by (cases w) auto
  then show ?case using Rep by auto
next
  case (Seq a b)
  then show ?case by fastforce
qed auto

lemma strip_nonempty:
  assumes "\<exists>x \<in> set w. \<not> is_space x"
  shows "strip w \<noteq> []"
proof -
  have d: "dropWhile is_space w \<noteq> []" using assms by (simp add: dropWhile_eq_Nil_conv)
  then have "\<not> is_space (hd (dropWhile is_space w))" by (rule hd_dropWhile)
  moreover have "hd (dropWhile is_space w) \<in> set (rev (dropWhile is_space w))" using d by simp
  ultimately have "dropWhile is_space (rev (dropWhile is_space w)) \<noteq> []"
    by (metis dropWhile_eq_Nil_conv)
  then show ?thesis by (simp add: strip_def)
qed

lemma space_lower: "is_space x \<Longrightarrow> lower_char x = x"
  by (auto simp: is_space_def lower_char_def Let_def)

lemma digit_not_space: "is_digit c \<Longrightarrow> \<not> is_space c"
  by (auto simp: is_digit_def is_space_def Let_def)

lemma find_lead_id_total:
  "\<forall>p \<in> set ps. 1 \<in> always_set p \<Longrightarrow> \<exists>r. find_lead_id ps text = Inr r"
proof (induction ps)
  case Nil
  then show ?case by simp
next
  case (Cons p ps)
  show ?case
  proof (cases "search p text")
    case None
    then show ?thesis using Cons by simp
  next
    case (Some m)
    have "1 \<in> always_set p" using Cons.prems by simp
    from search_group_str[OF Some this] obtain g where "group_str m 1 = Inr g" by blast
    then show ?thesis using Some Cons by (simp add: Let_def)
  qed
qed

lemma find_notes_total:
  "\<forall>p \<in> set ps. 1 \<in> always_set p \<Longrightarrow> \<exists>r. find_notes ps text = Inr r"
proof (induction ps)
  case Nil
  then show ?case by simp
next
  case (Cons p ps)
  show ?case
  proof (cases "search p text")
    case None
    then show ?thesis using Cons by simp
  next
    case (Some m)
    have "1 \<in> always_set p" using Cons.prems by simp
    from search_group_str[OF Some this] obtain g where "group_str m 1 = Inr g" by blast
    then show ?thesis using Some by simp
  qed
qed

lemma find_time_text_total:
  assumes "\<forall>p \<in> set ps. 1 \<in> always_set p"
    and "\<forall>p \<in> set ps. ngroups p \<le> 1 \<longrightarrow> (\<forall>w \<in> glang 1 p. \<exists>x \<in> set w. \<not> is_space x)"
  shows "\<exists>r. find_time_text ps text = Inr r \<and> (\<forall>tt. r = Some tt \<longrightarrow> tt \<noteq> [])"
  using assms
proof (induction ps)
  case Nil
  then show ?case by simp
next
  case (Cons p ps)
  show ?case
  proof (cases "search p text")
    case None
    then show ?thesis using Cons by simp
  next
    case (Some m)
    show ?thesis
    proof (cases "ngroups p > 1")
      case True
      then show ?thesis using Some by simp
    next
      case False
      have "1 \<in> always_set p" using Cons.prems by simp
      from search_group_str[OF Some this] obtain g
        where g: "group_str m 1 = Inr g" "g \<in> glang 1 p" by blast
      have "\<exists>x \<in> set g. \<not> is_space x" using Cons.prems(2) False g(2) by simp
      then have "strip g \<noteq> []" by (rule strip_nonempty)
      then show ?thesis using Some False g(1) by simp
    qed
  qed
qed

lemma glang_lit [simp]: "glang g (lit w) = {}"
  unfolding lit_def by (induction w) auto

lemma glang_lit_i [simp]: "glang g (lit_i w) = {}"
  unfolding lit_i_def by (induction w) auto

lemma glang_alts_lit_i [simp]: "glang g (alts (lit_i w) (map lit_i ws)) = {}"
  by (induction ws arbitrary: w) auto

lemma has_char_lit_i:
  assumes "w \<noteq> []" and "\<not> is_space (lower_char (hd w))"
  shows "has_char (\<lambda>c. \<not> is_space c) (lit_i w)"
proof -
  obtain a as where w: "w = a # as" using assms(1) by (cases w) auto
  have "\<And>c. lower_char c = lower_char a \<Longrightarrow> \<not> is_space c"
    using assms(2) w by (metis list.sel(1) space_lower)
  then show ?thesis using w by (simp add: lit_i_def)
qed

lemma nonblank_iso: "has_char (\<lambda>c. \<not> is_space c) iso_datetime"
  by (simp add: iso_datetime_def seqs_def digits_def digit_not_space)

lemma nonblank_date_hhmm: "has_char (\<lambda>c. \<not> is_space c) date_hhmm"
  by (simp add: date_hhmm_def seqs_def digits_def digit_not_space)

lemma nonblank_clock_time: "has_char (\<lambda>c. \<not> is_space c) clock_time"
  by (simp add: clock_time_def seqs_def digits12_def digit_not_space)

lemma nonblank_hhmm: "has_char (\<lambda>c. \<not> is_space c) hhmm"
  by (simp add: hhmm_def seqs_def digits12_def digit_not_space)

lemma nonblank_month_name: "has_char (\<lambda>c. \<not> is_space c) month_name"
  unfolding month_name_def alts.simps has_char.simps
  by (intro conjI has_char_lit_i) (simp_all add: is_space_def lower_char_def code_def)

lemma nonblank_month_day_time: "has_char (\<lambda>c. \<not> is_space c) month_day_time"
  by (simp add: month_day_time_def seqs_def nonblank_month_name)

lemma time_patterns_nonblank:
  "\<forall>p \<in> set time_patterns. ngroups p \<le> 1 \<longrightarrow> (\<forall>w \<in> glang 1 p. \<exists>x \<in> set w. \<not> is_space x)"
  using has_char_lang[OF nonblank_iso] has_char_lang[OF nonblank_date_hhmm]
    has_char_lang[OF nonblank_month_day_time] has_char_lang[OF nonblank_clock_time]
    has_char_lang[OF nonblank_hhmm]
  by (simp add: time_patterns_def seqs_def at_on_def sp1_def)

lemma visit_schedule_result:
  "\<exists>res. visit_schedule dp now text = Inr res \<and> (res \<noteq> None \<longleftrightarrow> visit_complete text) \<and>
     (\<forall>e. res = Some e \<longrightarrow>
        (\<exists>l. find_lead_id lead_patterns text = Inr (Some l) \<and> map_of e ''lead_id'' = Some l) \<and>
        (\<exists>tt. find_time_text time_patterns text = Inr (Some tt) \<and> tt \<noteq> [] \<and>
           map_of e ''visit_time'' = Some (case dp now tt of None \<Rightarrow> tt | Some stamp \<Rightarrow> stamp)) \<and>
        map_of e ''notes'' = notes_value text)"
proof -
  obtain lead where lead: "find_lead_id lead_patterns text = Inr lead"
    using find_lead_id_total[OF always_lead_patterns] by blast
  obtain tm where tm: "find_time_text time_patterns text = Inr tm"
    and ne: "\<And>tt. tm = Some tt \<Longrightarrow> tt \<noteq> []"
    using find_time_text_total[OF always_time_patterns time_patterns_nonblank] by blast
  obtain nts where nts: "find_notes notes_patterns text = Inr nts"
    using find_notes_total[OF always_notes_patterns] by blast
  define e1 where "e1 = (case lead of None \<Rightarrow> [] | Some l \<Rightarrow> AList.update ''lead_id'' l ([] :: entity_map))"
  define e2 where "e2 = store_visit_time dp now e1 tm"
  define e3 where "e3 = (case nts of None \<Rightarrow> e2 | Some n \<Rightarrow> AList.update ''notes'' n e2)"
  have vs: "visit_schedule dp now text = Inr (visit_result e3 tm)"
    unfolding e3_def e2_def e1_def by (simp add: visit_schedule_def lead tm nts Let_def)
  have vc: "visit_complete text \<longleftrightarrow> lead \<noteq> None \<and> tm \<noteq> None"
    by (auto simp: visit_complete_def found_def lead tm split: option.splits)
  have l3: "map_of e3 ''lead_id'' = lead"
    by (auto simp: e3_def e2_def e1_def store_visit_time_def map_of_upd split: option.splits)
  have t3: "map_of e3 ''visit_time'' = (case tm of None \<Rightarrow> None | Some tt \<Rightarrow> dp now tt)"
    using ne by (auto simp: e3_def e2_def e1_def store_visit_time_def map_of_upd split: option.splits)
  have n3: "map_of e3 ''notes'' = nts"
    by (auto simp: e3_def e2_def e1_def store_visit_time_def map_of_upd split: option.splits)
  show ?thesis
  proof (cases "visit_complete text")
    case False
    then have "visit_result e3 tm = None"
      using vc l3 t3 by (auto simp: visit_result_def has_keys_def truthy_def split: option.splits)
    then show ?thesis using vs False by simp
  next
    case True
    then obtain l tt where l: "lead = Some l" and tt: "tm = Some tt" using vc by auto
    have tne: "tt \<noteq> []" using ne tt by simp
    define e where "e = (if dp now tt = None then AList.update ''visit_time'' tt e3 else e3)"
    have "visit_result e3 tm = Some e"
      using l3 t3 l tt tne by (auto simp: visit_result_def has_keys_def truthy_def e_def)
    moreover have "map_of e ''lead_id'' = Some l" using l3 l by (simp add: e_def map_of_upd)
    moreover have "map_of e ''visit_time'' = Some (case dp now tt of None \<Rightarrow> tt | Some stamp \<Rightarrow> stamp)"
      using t3 tt by (auto simp: e_def map_of_upd)
    moreover have "map_of e ''notes'' = notes_value text"
      using n3 by (simp add: e_def map_of_upd notes_value_def nts)
    ultimately show ?thesis using vs True lead l tm tt tne by simp
  qed
qed

lemma store_status_eq:
  "store_status ents (search status_rx text) =
     Inr (case status_value text of None \<Rightarrow> ents | Some v \<Rightarrow> AList.update ''status'' v ents)"
proof (cases "search status_rx text")
  case None
  then show ?thesis by (simp add: store_status_def status_value_def)
next
  case (Some m)
  from search_group_str[OF Some always_status] obtain g
    where "group_str m 1 = Inr g" "group m 1 = Some g" by blast
  then show ?thesis using Some by (simp add: store_status_def status_value_def Let_def)
qed

lemma status_value_valid: "status_value text = Some v \<Longrightarrow> v \<in> VALID_STATUSES"
  by (auto simp: status_value_def Let_def split: option.splits if_splits)

lemma lead_update_result:
  "\<exists>res. lead_update text = Inr res \<and> (res \<noteq> None \<longleftrightarrow> update_complete text) \<and>
     (\<forall>e. res = Some e \<longrightarrow>
        (\<exists>m g. search update_lead_rx text = Some m \<and> group m 1 = Some g \<and>
               g \<in> glang 1 update_lead_rx \<and> map_of e ''lead_id'' = Some (strip g)) \<and>
        map_of e ''status'' = status_value text \<and>
        map_of e ''notes'' = update_notes_value text)"
proof -
  let ?e0 = "[] :: entity_map"
  obtain e1 where e1: "store_stripped ?e0 ''lead_id'' (search update_lead_rx text) = Inr e1"
    and n: "(search update_lead_rx text = None \<and> e1 = ?e0) \<or>
      (\<exists>m g. search update_lead_rx text = Some m \<and> group m 1 = Some g \<and>
         g \<in> glang 1 update_lead_rx \<and> e1 = AList.update ''lead_id'' (strip g) ?e0)"
    using store_stripped_cases[OF always_update_lead, of "text" "?e0" "''lead_id''"] by auto
  define e2 where "e2 = (case status_value text of None \<Rightarrow> e1 | Some v \<Rightarrow> AList.update ''status'' v e1)"
  obtain e3 where e3: "store_stripped e2 ''notes'' (search update_notes_rx text) = Inr e3"
    and c: "(search update_notes_rx text = None \<and> e3 = e2) \<or>
      (\<exists>m g. search update_notes_rx text = Some m \<and> group m 1 = Some g \<and>
         g \<in> glang 1 update_notes_rx \<and> e3 = AList.update ''notes'' (strip g) e2)"
    using store_stripped_cases[OF always_update_notes, of "text" e2 "''notes''"] by auto
  have lu: "lead_update text = Inr (if has_keys [''lead_id'', ''status''] e3 then Some e3 else None)"
    using e1 e3 unfolding e2_def by (simp add: lead_update_def Let_def store_status_eq)
  have k1: "map_of e3 ''lead_id'' = map_of e1 ''lead_id''"
    using c by (auto simp: e2_def map_of_upd split: option.splits)
  have k2: "map_of e3 ''status'' = status_value text"
    using n c by (auto simp: e2_def map_of_upd split: option.splits)
  have k3: "map_of e3 ''notes'' = update_notes_value text"
    using n c by (auto simp: e2_def map_of_upd update_notes_value_def split: option.splits)
  have hk: "has_keys [''lead_id'', ''status''] e3 \<longleftrightarrow> update_complete text"
    unfolding has_keys_def update_complete_def using n k1 k2 by (auto simp: map_of_upd)
  show ?thesis
  proof (cases "update_complete text")
    case False
    then show ?thesis using lu hk by simp
  next
    case True
    then have res: "lead_update text = Inr (Some e3)" using lu hk by simp
    have "\<exists>m g. search update_lead_rx text = Some m \<and> group m 1 = Some g \<and>
               g \<in> glang 1 update_lead_rx \<and> map_of e3 ''lead_id'' = Some (strip g)"
      using True n k1 by (auto simp: update_complete_def map_of_upd)
    then show ?thesis using res k2 k3 True by simp
  qed
qed

lemma parse_transcript_result:
  "\<exists>r. parse_transcript dp now t = Inr r \<and> intent r = expected_intent (strip t) \<and>
     (intent r = LEAD_CREATE \<longrightarrow> lead_create (strip t) = Inr (Some (entities r))) \<and>
     (intent r = VISIT_SCHEDULE \<longrightarrow> visit_schedule dp now (strip t) = Inr (Some (entities r))) \<and>
     (intent r = LEAD_UPDATE \<longrightarrow> lead_update (strip t) = Inr (Some (entities r))) \<and>
     (intent r = UNKNOWN \<longrightarrow> entities r = [])"
proof -
  define tx where "tx = strip t"
  obtain r1 where r1: "lead_create tx = Inr r1" "r1 \<noteq> None \<longleftrightarrow> create_complete tx"
    using lead_create_result[of tx] by blast
  obtain r2 where r2: "visit_schedule dp now tx = Inr r2" "r2 \<noteq> None \<longleftrightarrow> visit_complete tx"
    using visit_schedule_result[of dp now tx] by blast
  obtain r3 where r3: "lead_update tx = Inr r3" "r3 \<noteq> None \<longleftrightarrow> update_complete tx"
    using lead_update_result[of tx] by blast
  show ?thesis
    unfolding parse_transcript_def Let_def expected_intent_def tx_def[symmetric]
    using r1 r2 r3 by (auto split: option.splits)
qed

section \<open>The properties of the specification\<close>

text \<open>
  Claim C1. Whenever \<open>parse_transcript\<close> returns a result whose intent is not UNKNOWN, the
  entities hold every required entity of that intent: name, phone and city for
  LEAD\_CREATE; lead\_id and visit\_time for VISIT\_SCHEDULE; lead\_id and status for
  LEAD\_UPDATE.
\<close>

theorem required_entities_present:
  assumes "parse_transcript dp now t = Inr r" and "intent r \<noteq> UNKNOWN"
  shows "\<forall>k \<in> set (required (intent r)). map_of (entities r) k \<noteq> None"
proof -
  from parse_transcript_result[of dp now t] assms(1)
  have c: "intent r = LEAD_CREATE \<longrightarrow> lead_create (strip t) = Inr (Some (entities r))"
    and v: "intent r = VISIT_SCHEDULE \<longrightarrow> visit_schedule dp now (strip t) = Inr (Some (entities r))"
    and u: "intent r = LEAD_UPDATE \<longrightarrow> lead_update (strip t) = Inr (Some (entities r))"
    by auto
  show ?thesis
  proof (cases "intent r")
    case LEAD_CREATE
    then show ?thesis using c lead_create_result[of "strip t"] by (auto simp: required_def)
  next
    case VISIT_SCHEDULE
    then show ?thesis using v visit_schedule_result[of dp now "strip t"] by (auto simp: required_def)
  next
    case LEAD_UPDATE
    then show ?thesis using u lead_update_result[of "strip t"] status_value_valid[of "strip t"]
      by (cases "status_value (strip t)") (auto simp: required_def update_complete_def)
  next
    case UNKNOWN
    then show ?thesis using assms(2) by simp
  qed
qed

theorem required_entities_present_witness:
  "parse_transcript stub_dateparser ''2025-10-03'' ''new lead Al Bo from Rome 9876543210'' =
     Inr \<lparr>intent = LEAD_CREATE,
          entities = [(''name'', ''Al Bo''), (''phone'', ''9876543210''), (''city'', ''Rome'')]\<rparr> \<and>
   map_of [(''name'', ''Al Bo''), (''phone'', ''9876543210''), (''city'', ''Rome'')] ''name'' \<noteq> None \<and>
   map_of [(''name'', ''Al Bo''), (''phone'', ''9876543210''), (''city'', ''Rome'')] ''phone'' \<noteq> None \<and>
   map_of [(''name'', ''Al Bo''), (''phone'', ''9876543210''), (''city'', ''Rome'')] ''city'' \<noteq> None"
proof -
  have h: "parse_transcript stub_dateparser ''2025-10-03'' ''new lead Al Bo from Rome 9876543210'' =
     Inr \<lparr>intent = LEAD_CREATE,
          entities = [(''name'', ''Al Bo''), (''phone'', ''9876543210''), (''city'', ''Rome'')]\<rparr>"
    by code_simp
  from required_entities_present[OF h] show ?thesis using h by (simp add: required_def)
qed

text \<open>
  Claim C2. \<open>parse_transcript\<close> tries LEAD\_CREATE, then VISIT\_SCHEDULE, then
  LEAD\_UPDATE, and returns the result of the first branch whose gate matches and whose
  required fields were all found (\<open>expected_intent\<close> is that priority order). In
  particular, when the LEAD\_CREATE gate matches but name, phone and city were not all
  found, control falls through, and if the VISIT\_SCHEDULE gate matches and its extraction
  is complete the intent is VISIT\_SCHEDULE.
\<close>

theorem intent_priority_order:
  "\<exists>r. parse_transcript dp now t = Inr r \<and>
     intent r = expected_intent (strip t) \<and>
     (intent r = LEAD_CREATE \<longrightarrow> lead_create (strip t) = Inr (Some (entities r))) \<and>
     (intent r = VISIT_SCHEDULE \<longrightarrow> visit_schedule dp now (strip t) = Inr (Some (entities r))) \<and>
     (intent r = LEAD_UPDATE \<longrightarrow> lead_update (strip t) = Inr (Some (entities r))) \<and>
     (lead_create_gate (lower (strip t)) \<and> \<not> create_complete (strip t) \<and>
      visit_schedule_gate (lower (strip t)) \<and> visit_complete (strip t)
        \<longrightarrow> intent r = VISIT_SCHEDULE)"
proof -
  from parse_transcript_result[of dp now t] obtain r where
    r: "parse_transcript dp now t = Inr r" "intent r = expected_intent (strip t)"
      "intent r = LEAD_CREATE \<longrightarrow> lead_create (strip t) = Inr (Some (entities r))"
      "intent r = VISIT_SCHEDULE \<longrightarrow> visit_schedule dp now (strip t) = Inr (Some (entities r))"
      "intent r = LEAD_UPDATE \<longrightarrow> lead_update (strip t) = Inr (Some (entities r))"
    by blast
  have "lead_create_gate (lower (strip t)) \<and> \<not> create_complete (strip t) \<and>
      visit_schedule_gate (lower (strip t)) \<and> visit_complete (strip t)
        \<longrightarrow> intent r = VISIT_SCHEDULE"
    using r(2) by (simp add: expected_intent_def Let_def)
  then show ?thesis using r by blast
qed

theorem intent_priority_order_witness:
  "lead_create_gate (lower (strip ''add visit lead abc-123 at 5'')) \<and>
   \<not> create_complete (strip ''add visit lead abc-123 at 5'') \<and>
   visit_schedule_gate (lower (strip ''add visit lead abc-123 at 5'')) \<and>
   visit_complete (strip ''add visit lead abc-123 at 5'') \<and>
   parse_transcript stub_dateparser ''2025-10-03'' ''add visit lead abc-123 at 5'' =
     Inr \<lparr>intent = VISIT_SCHEDULE, entities = [(''lead_id'', ''abc-123''), (''visit_time'', ''5'')]\<rparr>"
proof -
  have g1: "lead_create_gate (lower (strip ''add visit lead abc-123 at 5''))" by code_simp
  have c1: "\<not> create_complete (strip ''add visit lead abc-123 at 5'')" by code_simp
  have g2: "visit_schedule_gate (lower (strip ''add visit lead abc-123 at 5''))" by code_simp
  have c2: "visit_complete (strip ''add visit lead abc-123 at 5'')" by code_simp
  have h: "parse_transcript stub_dateparser ''2025-10-03'' ''add visit lead abc-123 at 5'' =
     Inr \<lparr>intent = VISIT_SCHEDULE, entities = [(''lead_id'', ''abc-123''), (''visit_time'', ''5'')]\<rparr>"
    by code_simp
  from intent_priority_order[of stub_dateparser "''2025-10-03''" "''add visit lead abc-123 at 5''"]
  have "intent \<lparr>intent = VISIT_SCHEDULE, entities = [(''lead_id'', ''abc-123''), (''visit_time'', ''5'')]\<rparr>
      = VISIT_SCHEDULE"
    using g1 c1 g2 c2 h by auto
  then show ?thesis using g1 c1 g2 c2 h by blast
qed

text \<open>
  Claim C3. A transcript that triggers none of the three keyword gates gives UNKNOWN with
  no entities; more generally, so does every transcript for which no branch has both its
  gate and its required fields.
\<close>

theorem unknown_fallback:
  "(\<not> lead_create_gate (lower (strip t)) \<and> \<not> visit_schedule_gate (lower (strip t)) \<and>
    \<not> lead_update_gate (lower (strip t))
      \<longrightarrow> parse_transcript dp now t = Inr \<lparr>intent = UNKNOWN, entities = []\<rparr>) \<and>
   (\<not> (lead_create_gate (lower (strip t)) \<and> create_complete (strip t)) \<and>
    \<not> (visit_schedule_gate (lower (strip t)) \<and> visit_complete (strip t)) \<and>
    \<not> (lead_update_gate (lower (strip t)) \<and> update_complete (strip t))
      \<longrightarrow> parse_transcript dp now t = Inr \<lparr>intent = UNKNOWN, entities = []\<rparr>)"
proof -
  from parse_transcript_result[of dp now t] obtain r where
    r: "parse_transcript dp now t = Inr r" "intent r = expected_intent (strip t)"
      "intent r = UNKNOWN \<longrightarrow> entities r = []"
    by blast
  have "expected_intent (strip t) = UNKNOWN \<Longrightarrow> r = \<lparr>intent = UNKNOWN, entities = []\<rparr>"
    using r(2,3) by (cases r) simp
  then show ?thesis using r(1) by (auto simp: expected_intent_def Let_def)
qed

theorem unknown_fallback_witness:
  "\<not> lead_create_gate (lower (strip ''hello there'')) \<and>
   \<not> visit_schedule_gate (lower (strip ''hello there'')) \<and>
   \<not> lead_update_gate (lower (strip ''hello there'')) \<and>
   parse_transcript stub_dateparser ''2025-10-03'' ''hello there'' =
     Inr \<lparr>intent = UNKNOWN, entities = []\<rparr> \<and>
   \<not> (lead_create_gate (lower (strip ''Add a new lead without proper details'')) \<and>
      create_complete (strip ''Add a new lead without proper details'')) \<and>
   \<not> (visit_schedule_gate (lower (strip ''Add a new lead without proper details'')) \<and>
      visit_complete (strip ''Add a new lead without proper details'')) \<and>
   \<not> (lead_update_gate (lower (strip ''Add a new lead without proper details'')) \<and>
      update_complete (strip ''Add a new lead without proper details'')) \<and>
   lead_create_gate (lower (strip ''Add a new lead without proper details'')) \<and>
   parse_transcript stub_dateparser ''2025-10-03'' ''Add a new lead without proper details'' =
     Inr \<lparr>intent = UNKNOWN, entities = []\<rparr>"
proof -
  have a1: "\<not> lead_create_gate (lower (strip ''hello there''))" by code_simp
  have a2: "\<not> visit_schedule_gate (lower (strip ''hello there''))" by code_simp
  have a3: "\<not> lead_update_gate (lower (strip ''hello there''))" by code_simp
  have b1: "\<not> (lead_create_gate (lower (strip ''Add a new lead without proper details'')) \<and>
      create_complete (strip ''Add a new lead without proper details''))" by code_simp
  have b2: "\<not> (visit_schedule_gate (lower (strip ''Add a new lead without proper details'')) \<and>
      visit_complete (strip ''Add a new lead without proper details''))" by code_simp
  have b3: "\<not> (lead_update_gate (lower (strip ''Add a new lead without proper details'')) \<and>
      update_complete (strip ''Add a new lead without proper details''))" by code_simp
  have b4: "lead_create_gate (lower (strip ''Add a new lead without proper details''))" by code_simp
  note u1 = unknown_fallback[of "''hello there''" stub_dateparser "''2025-10-03''", THEN conjunct1, rule_format]
  note u2 = unknown_fallback[of "''Add a new lead without proper details''" stub_dateparser
      "''2025-10-03''", THEN conjunct2, rule_format]
  show ?thesis using a1 a2 a3 b1 b2 b3 b4 u1 u2 by blast
qed

text \<open>
  Claim C4. In the VISIT\_SCHEDULE branch (reached with no LEAD\_CREATE result, and with a
  lead id found), when a time pattern matches with phrase \<open>tt\<close>, the phrase goes to the
  date parser: if it parses, visit\_time is the parser's timestamp; if it fails,
  visit\_time is the phrase itself, and the intent is VISIT\_SCHEDULE either way.
\<close>

theorem visit_time_normalized_or_raw:
  assumes "\<not> (lead_create_gate (lower (strip t)) \<and> create_complete (strip t))"
    and "visit_schedule_gate (lower (strip t))"
    and "find_lead_id lead_patterns (strip t) = Inr (Some l)"
    and "find_time_text time_patterns (strip t) = Inr (Some tt)"
  shows "\<exists>r. parse_transcript dp now t = Inr r \<and> intent r = VISIT_SCHEDULE \<and>
           map_of (entities r) ''lead_id'' = Some l \<and>
           map_of (entities r) ''visit_time'' =
             Some (case dp now tt of Some stamp \<Rightarrow> stamp | None \<Rightarrow> tt)"
proof -
  have vc: "visit_complete (strip t)" using assms(3,4) by (simp add: visit_complete_def found_def)
  from parse_transcript_result[of dp now t] obtain r where
    r: "parse_transcript dp now t = Inr r" "intent r = expected_intent (strip t)"
      "intent r = VISIT_SCHEDULE \<longrightarrow> visit_schedule dp now (strip t) = Inr (Some (entities r))"
    by blast
  have i: "intent r = VISIT_SCHEDULE"
    using r(2) assms(1,2) vc by (auto simp: expected_intent_def Let_def)
  then have "visit_schedule dp now (strip t) = Inr (Some (entities r))" using r(3) by simp
  with visit_schedule_result[of dp now "strip t"] assms(3,4)
  have "map_of (entities r) ''lead_id'' = Some l \<and>
        map_of (entities r) ''visit_time'' = Some (case dp now tt of None \<Rightarrow> tt | Some stamp \<Rightarrow> stamp)"
    by auto
  moreover have "(case dp now tt of None \<Rightarrow> tt | Some stamp \<Rightarrow> stamp) =
      (case dp now tt of Some stamp \<Rightarrow> stamp | None \<Rightarrow> tt)" by simp
  ultimately show ?thesis using r(1) i by auto
qed

theorem visit_time_normalized_or_raw_witness:
  "\<not> (lead_create_gate (lower (strip ''visit lead abc-123 at 2025-10-03T10:00:00'')) \<and>
      create_complete (strip ''visit lead abc-123 at 2025-10-03T10:00:00'')) \<and>
   visit_schedule_gate (lower (strip ''visit lead abc-123 at 2025-10-03T10:00:00'')) \<and>
   find_lead_id lead_patterns (strip ''visit lead abc-123 at 2025-10-03T10:00:00'') =
     Inr (Some ''abc-123'') \<and>
   find_time_text time_patterns (strip ''visit lead abc-123 at 2025-10-03T10:00:00'') =
     Inr (Some ''2025-10-03T10:00:00'') \<and>
   stub_dateparser ''2025-10-03'' ''2025-10-03T10:00:00'' = Some ''2025-10-03T10:00:00'' \<and>
   parse_transcript stub_dateparser ''2025-10-03'' ''visit lead abc-123 at 2025-10-03T10:00:00'' =
     Inr \<lparr>intent = VISIT_SCHEDULE,
          entities = [(''lead_id'', ''abc-123''), (''visit_time'', ''2025-10-03T10:00:00'')]\<rparr> \<and>
   \<not> (lead_create_gate (lower (strip ''visit lead abc-123 at 5 pm'')) \<and>
      create_complete (strip ''visit lead abc-123 at 5 pm'')) \<and>
   visit_schedule_gate (lower (strip ''visit lead abc-123 at 5 pm'')) \<and>
   find_lead_id lead_patterns (strip ''visit lead abc-123 at 5 pm'') = Inr (Some ''abc-123'') \<and>
   find_time_text time_patterns (strip ''visit lead abc-123 at 5 pm'') = Inr (Some ''5 pm'') \<and>
   stub_dateparser ''2025-10-03'' ''5 pm'' = None \<and>
   parse_transcript stub_dateparser ''2025-10-03'' ''visit lead abc-123 at 5 pm'' =
     Inr \<lparr>intent = VISIT_SCHEDULE,
          entities = [(''lead_id'', ''abc-123''), (''visit_time'', ''5 pm'')]\<rparr>"
proof -
  have a1: "\<not> (lead_create_gate (lower (strip ''visit lead abc-123 at 2025-10-03T10:00:00'')) \<and>
      create_complete (strip ''visit lead abc-123 at 2025-10-03T10:00:00''))" by code_simp
  have a2: "visit_schedule_gate (lower (strip ''visit lead abc-123 at 2025-10-03T10:00:00''))"
    by code_simp
  have a3: "find_lead_id lead_patterns (strip ''visit lead abc-123 at 2025-10-03T10:00:00'') =
     Inr (Some ''abc-123'')" by code_simp
  have a4: "find_time_text time_patterns (strip ''visit lead abc-123 at 2025-10-03T10:00:00'') =
     Inr (Some ''2025-10-03T10:00:00'')" by code_simp
  have a5: "stub_dateparser ''2025-10-03'' ''2025-10-03T10:00:00'' = Some ''2025-10-03T10:00:00''"
    by code_simp
  have a6: "parse_transcript stub_dateparser ''2025-10-03''
      ''visit lead abc-123 at 2025-10-03T10:00:00'' =
     Inr \<lparr>intent = VISIT_SCHEDULE,
          entities = [(''lead_id'', ''abc-123''), (''visit_time'', ''2025-10-03T10:00:00'')]\<rparr>"
    by code_simp
  have b1: "\<not> (lead_create_gate (lower (strip ''visit lead abc-123 at 5 pm'')) \<and>
      create_complete (strip ''visit lead abc-123 at 5 pm''))" by code_simp
  have b2: "visit_schedule_gate (lower (strip ''visit lead abc-123 at 5 pm''))" by code_simp
  have b3: "find_lead_id lead_patterns (strip ''visit lead abc-123 at 5 pm'') =
     Inr (Some ''abc-123'')" by code_simp
  have b4: "find_time_text time_patterns (strip ''visit lead abc-123 at 5 pm'') =
     Inr (Some ''5 pm'')" by code_simp
  have b5: "stub_dateparser ''2025-10-03'' ''5 pm'' = None" by code_simp
  from visit_time_normalized_or_raw[OF b1 b2 b3 b4, of stub_dateparser "''2025-10-03''"] b5
  have b6: "\<exists>r. parse_transcript stub_dateparser ''2025-10-03'' ''visit lead abc-123 at 5 pm'' = Inr r \<and>
      intent r = VISIT_SCHEDULE \<and> map_of (entities r) ''visit_time'' = Some ''5 pm''"
    by auto
  have b7: "parse_transcript stub_dateparser ''2025-10-03'' ''visit lead abc-123 at 5 pm'' =
     Inr \<lparr>intent = VISIT_SCHEDULE,
          entities = [(''lead_id'', ''abc-123''), (''visit_time'', ''5 pm'')]\<rparr>"
    by code_simp
  from visit_time_normalized_or_raw[OF a1 a2 a3 a4, of stub_dateparser "''2025-10-03''"] a5
  have a7: "\<exists>r. parse_transcript stub_dateparser ''2025-10-03''
        ''visit lead abc-123 at 2025-10-03T10:00:00'' = Inr r \<and>
      intent r = VISIT_SCHEDULE \<and> map_of (entities r) ''visit_time'' = Some ''2025-10-03T10:00:00''"
    by auto
  show ?thesis using a1 a2 a3 a4 a5 a6 a7 b1 b2 b3 b4 b5 b6 b7 by blast
qed

end
